theory Spec2Isabelle
  imports Main "HOL-Library.Multiset"
begin

section \<open>The bookings table\<close>

text \<open>
  A row of the table \<^verbatim>\<open>bookings\<close> created by \<^verbatim>\<open>create_bookings_table\<close>:
  \<^verbatim>\<open>id INTEGER PRIMARY KEY, start_time INTEGER, end_time INTEGER, description TEXT,
  user_id TEXT\<close>. The source reads rows as tuples in this column order
  (\<^verbatim>\<open>booking[1]\<close> is the start time, \<^verbatim>\<open>booking[2]\<close> the end time,
  \<^verbatim>\<open>existing_booking[3]\<close> the description). Times are epoch seconds, Python integers.
\<close>

record booking =
  booking_id :: int
  start_time :: int
  end_time :: int
  description :: string
  user_id :: string

text \<open>
  The table is the list of its rows in rowid order, which is the order in which an
  unordered \<^verbatim>\<open>SELECT *\<close> scans it, so \<^verbatim>\<open>fetchone()\<close> is the first match
  (\<^const>\<open>find\<close>). A row inserted without an id gets one more than the largest id
  in use, and 1 in an empty table.
\<close>

type_synonym store = "booking list"

definition next_rowid :: "store \<Rightarrow> int" where
  "next_rowid s = (if s = [] then 1 else Max (set (map booking_id s)) + 1)"

definition insert_row :: "int \<Rightarrow> int \<Rightarrow> string \<Rightarrow> string \<Rightarrow> store \<Rightarrow> store" where
  "insert_row st en d u s =
     s @ [\<lparr>booking_id = next_rowid s, start_time = st, end_time = en,
           description = d, user_id = u\<rparr>]"

text \<open>The dictionary built by \<^verbatim>\<open>sanitize_booking_input\<close>.\<close>

record booking_information =
  bi_start_time :: int
  bi_duration :: int
  bi_end_time :: int
  bi_description :: string
  bi_user_id :: string

text \<open>
  \<^verbatim>\<open>sanitize_booking_input\<close>: the arguments are the values read from the view state
  (\<^verbatim>\<open>selected_date_time\<close>, the duration option parsed by \<^verbatim>\<open>int\<close>, the description)
  and the id of the submitting user.
\<close>

definition sanitize_booking_input :: "int \<Rightarrow> int \<Rightarrow> string \<Rightarrow> string \<Rightarrow> booking_information" where
  "sanitize_booking_input selected_date_time duration_value descr uid =
     \<lparr>bi_start_time = selected_date_time,
      bi_duration = duration_value,
      bi_end_time = (selected_date_time + duration_value * 60) - 1,
      bi_description = descr,
      bi_user_id = uid\<rparr>"

section \<open>Creating a booking\<close>

datatype error = OverlappingBookingError string

text \<open>
  The \<^verbatim>\<open>WHERE\<close> clause shared by \<^verbatim>\<open>add_booking\<close> and \<^verbatim>\<open>process_extending\<close>:
  \<^verbatim>\<open>NOT (start_time >= ? OR end_time <= ?)\<close>, with the candidate's end time and start
  time as parameters, in this order.
\<close>

definition overlap_query :: "int \<Rightarrow> int \<Rightarrow> booking \<Rightarrow> bool" where
  "overlap_query cand_end cand_start r =
     (\<not> (start_time r \<ge> cand_end \<or> end_time r \<le> cand_start))"

definition overlap_message :: "string \<Rightarrow> string" where
  "overlap_message d = ''A booking called '' @ [CHR 0x27] @ d @ [CHR 0x27] @
     '' already exists during that time slot!''"

text \<open>
  \<^verbatim>\<open>add_booking\<close>: the result is the exception raised or the normal return, together
  with the table afterwards. The exception is raised before any statement that writes.
\<close>

definition add_booking :: "booking_information \<Rightarrow> store \<Rightarrow> (error + unit) \<times> store" where
  "add_booking bi s =
     (case find (overlap_query (bi_end_time bi) (bi_start_time bi)) s of
        Some existing_booking \<Rightarrow>
          (Inl (OverlappingBookingError (overlap_message (description existing_booking))), s)
      | None \<Rightarrow>
          (Inr (), insert_row (bi_start_time bi) (bi_end_time bi)
                     (bi_description bi) (bi_user_id bi) s))"

section \<open>The modal handlers\<close>

text \<open>
  What a handler sends back: the acknowledgement (\<^verbatim>\<open>ack()\<close>, or
  \<^verbatim>\<open>ack(response_action="errors", errors=...)\<close> with the error dictionary as a list of
  pairs) and the messages posted with \<^verbatim>\<open>chat_postMessage\<close>, as pairs of channel and text.
\<close>

datatype ack = Ack | AckErrors "(string \<times> string) list"

record reply =
  acked :: ack
  posted :: "(string \<times> string) list"

text \<open>
  \<^verbatim>\<open>process_unbooking\<close>: \<open>requester\<close> is \<^verbatim>\<open>body["user"]["id"]\<close>, \<open>unbooking_id\<close> the
  selected option parsed by \<^verbatim>\<open>int\<close>.
\<close>

definition process_unbooking :: "string \<Rightarrow> int \<Rightarrow> store \<Rightarrow> reply \<times> store" where
  "process_unbooking requester unbooking_id s =
     (\<lparr>acked = Ack, posted = [(requester, ''Successfully removed booking.'')]\<rparr>,
      filter (\<lambda>r. booking_id r \<noteq> unbooking_id) s)"

definition booking_not_found :: reply where
  "booking_not_found =
     \<lparr>acked = AckErrors [(''extending_select'', ''Booking not found.'')], posted = []\<rparr>"

definition extension_overlaps :: reply where
  "extension_overlaps =
     \<lparr>acked = AckErrors [(''extending_select'',
        ''Cannot extend booking as it overlaps with another booking.'')], posted = []\<rparr>"

definition update_end_time :: "int \<Rightarrow> int \<Rightarrow> store \<Rightarrow> store" where
  "update_end_time new_end_time extending_id s =
     map (\<lambda>r. if booking_id r = extending_id then r\<lparr>end_time := new_end_time\<rparr> else r) s"

text \<open>
  \<^verbatim>\<open>process_extending\<close>: \<open>extending_id\<close> and \<open>duration_value\<close> are the two selected
  options parsed by \<^verbatim>\<open>int\<close>; the duration is in minutes.
\<close>

definition process_extending :: "string \<Rightarrow> int \<Rightarrow> int \<Rightarrow> store \<Rightarrow> reply \<times> store" where
  "process_extending requester extending_id duration_value s =
     (let extension_in_seconds = duration_value * 60 in
      case find (\<lambda>r. booking_id r = extending_id) s of
        None \<Rightarrow> (booking_not_found, s)
      | Some booking \<Rightarrow>
          (let new_end_time = end_time booking + extension_in_seconds in
           case find (\<lambda>r. booking_id r \<noteq> extending_id \<and>
                           overlap_query new_end_time (start_time booking) r) s of
             Some overlapping_booking \<Rightarrow> (extension_overlaps, s)
           | None \<Rightarrow>
               (\<lparr>acked = Ack, posted = [(requester, ''Successfully extended booking.'')]\<rparr>,
                update_end_time new_end_time extending_id s)))"

section \<open>Listing a user's bookings\<close>

text \<open>
  \<^verbatim>\<open>get_all_future_user_bookings\<close>: \<open>current_time\<close> is the clock reading
  \<^verbatim>\<open>int(time.time())\<close>. \<^verbatim>\<open>ORDER BY start_time ASC\<close> is a sort on the start time; rows
  with equal start times are kept in table order.
\<close>

definition get_all_future_user_bookings :: "int \<Rightarrow> string \<Rightarrow> store \<Rightarrow> booking list" where
  "get_all_future_user_bookings current_time uid s =
     sort_key start_time (filter (\<lambda>r. user_id r = uid \<and> end_time r > current_time) s)"

section \<open>The snapshot sent to the screen\<close>

text \<open>
  \<^verbatim>\<open>get_readable_start_end_time\<close>: \<open>hm\<close> is the rendering of an epoch second as
  \<^verbatim>\<open>%H:%M\<close> in the time zone Europe/Amsterdam, which \<^verbatim>\<open>datetime\<close> and \<^verbatim>\<open>pytz\<close>
  supply.
\<close>

definition get_readable_start_end_time :: "(int \<Rightarrow> string) \<Rightarrow> int \<Rightarrow> int \<Rightarrow> string \<times> string" where
  "get_readable_start_end_time hm st en = (hm st, hm (en + 1))"

record view_entry =
  entry_time :: string
  entry_description :: string

text \<open>The dictionary \<^verbatim>\<open>booking_information\<close> of \<^verbatim>\<open>bookings_to_view_json\<close>.\<close>

record view_json =
  current_booking :: "view_entry option"
  first_coming_booking :: "view_entry option"
  second_coming_booking :: "view_entry option"

definition empty_view :: view_json where
  "empty_view = \<lparr>current_booking = None, first_coming_booking = None,
                  second_coming_booking = None\<rparr>"

text \<open>\<^verbatim>\<open>x in range(a, b)\<close> on integers.\<close>

definition in_range :: "int \<Rightarrow> int \<Rightarrow> int \<Rightarrow> bool" where
  "in_range x a b = (a \<le> x \<and> x < b)"

definition make_entry :: "(int \<Rightarrow> string) \<Rightarrow> booking \<Rightarrow> view_entry" where
  "make_entry hm b =
     (case get_readable_start_end_time hm (start_time b) (end_time b) of
        (start_time_string, end_time_string) \<Rightarrow>
          \<lparr>entry_time = start_time_string @ '' - '' @ end_time_string,
           entry_description = description b\<rparr>)"

text \<open>
  One iteration of the loop of \<^verbatim>\<open>bookings_to_view_json\<close>. The clock is read in every
  iteration, so the booking comes with the reading \<open>current_timestamp\<close> of its iteration.
  A slot that holds an entry is truthy, an empty one is \<^verbatim>\<open>None\<close>.
\<close>

definition view_step :: "(int \<Rightarrow> string) \<Rightarrow> view_json \<Rightarrow> int \<times> booking \<Rightarrow> view_json" where
  "view_step hm v tb =
     (case tb of (current_timestamp, b) \<Rightarrow>
        if current_booking v = None \<and> in_range current_timestamp (start_time b) (end_time b)
        then v\<lparr>current_booking := Some (make_entry hm b)\<rparr>
        else if first_coming_booking v = None
        then v\<lparr>first_coming_booking := Some (make_entry hm b)\<rparr>
        else if second_coming_booking v = None
        then v\<lparr>second_coming_booking := Some (make_entry hm b)\<rparr>
        else v)"

fun view_loop :: "(int \<Rightarrow> string) \<Rightarrow> view_json \<Rightarrow> (int \<times> booking) list \<Rightarrow> view_json" where
  "view_loop hm v [] = v"
| "view_loop hm v (tb # tbs) = view_loop hm (view_step hm v tb) tbs"

text \<open>
  \<^verbatim>\<open>bookings_to_view_json\<close> with every clock reading equal to \<open>now\<close>; the result is the
  dictionary handed to \<^verbatim>\<open>json.dumps\<close>. The early return on an empty list gives the same
  dictionary as the loop over no booking.
\<close>

definition bookings_to_view_json :: "(int \<Rightarrow> string) \<Rightarrow> int \<Rightarrow> booking list \<Rightarrow> view_json" where
  "bookings_to_view_json hm now current_three_bookings =
     (if current_three_bookings = [] then empty_view
      else view_loop hm empty_view (map (\<lambda>b. (now, b)) current_three_bookings))"

section \<open>Sequences of operations\<close>

text \<open>
  A submitted modal: a booking (the dictionary handed to \<^verbatim>\<open>add_booking\<close>), an extension
  (requester, booking id, minutes) or an unbooking (requester, booking id).
\<close>

datatype operation =
  Create booking_information
| Extend string int int
| Cancel string int

text \<open>An operation succeeds when no exception is raised and the modal is acknowledged without errors.\<close>

fun apply_operation :: "operation \<Rightarrow> store \<Rightarrow> store option" where
  "apply_operation (Create bi) s =
     (case add_booking bi s of (Inl e, s') \<Rightarrow> None | (Inr u, s') \<Rightarrow> Some s')"
| "apply_operation (Extend requester i m) s =
     (case process_extending requester i m s of
        (r, s') \<Rightarrow> if acked r = Ack then Some s' else None)"
| "apply_operation (Cancel requester i) s =
     (case process_unbooking requester i s of
        (r, s') \<Rightarrow> if acked r = Ack then Some s' else None)"

fun run_operations :: "operation list \<Rightarrow> store \<Rightarrow> store option" where
  "run_operations [] s = Some s"
| "run_operations (x # xs) s =
     (case apply_operation x s of None \<Rightarrow> None | Some s' \<Rightarrow> run_operations xs s')"

section \<open>Properties of a table\<close>

text \<open>The primary key: no two rows share an id.\<close>

definition unique_ids :: "store \<Rightarrow> bool" where
  "unique_ids s = distinct (map booking_id s)"

text \<open>
  Intersection of the closed intervals of two rows, in the words of the specification:
  \<^verbatim>\<open>NOT (a.start > b.end OR a.end < b.start)\<close>.
\<close>

definition closed_intersect :: "booking \<Rightarrow> booking \<Rightarrow> bool" where
  "closed_intersect a b = (\<not> (start_time a > end_time b \<or> end_time a < start_time b))"

text \<open>The test of the source's queries, between two rows.\<close>

definition rows_overlap :: "booking \<Rightarrow> booking \<Rightarrow> bool" where
  "rows_overlap a b = overlap_query (end_time b) (start_time b) a"

definition no_overlap :: "store \<Rightarrow> bool" where
  "no_overlap s =
     (\<forall>a \<in> set s. \<forall>b \<in> set s. booking_id a \<noteq> booking_id b \<longrightarrow> \<not> rows_overlap a b)"

definition no_closed_intersection :: "store \<Rightarrow> bool" where
  "no_closed_intersection s =
     (\<forall>a \<in> set s. \<forall>b \<in> set s. booking_id a \<noteq> booking_id b \<longrightarrow> \<not> closed_intersect a b)"

text \<open>
  A row whose start is on a full minute and whose end is the last second of a minute, as
  \<^verbatim>\<open>sanitize_booking_input\<close> makes it from a start on a full minute.
\<close>

definition minute_aligned :: "booking \<Rightarrow> bool" where
  "minute_aligned r = (start_time r mod 60 = 0 \<and> end_time r mod 60 = 59)"

text \<open>
  A submitted booking as the modal produces it: the start on a full minute, the end as
  \<^verbatim>\<open>sanitize_booking_input\<close> computes it.
\<close>

fun aligned_operation :: "operation \<Rightarrow> bool" where
  "aligned_operation (Create bi) =
     (bi_start_time bi mod 60 = 0 \<and>
      bi_end_time bi = (bi_start_time bi + bi_duration bi * 60) - 1)"
| "aligned_operation (Extend requester i m) = True"
| "aligned_operation (Cancel requester i) = True"

text \<open>The test of the loop on a booking and the clock reading of its iteration.\<close>

definition clock_in_booking :: "int \<times> booking \<Rightarrow> bool" where
  "clock_in_booking tb = in_range (fst tb) (start_time (snd tb)) (end_time (snd tb))"

text \<open>
  The dictionary in which \<open>c\<close> is the current booking and the first two entries of
  \<open>others\<close>, if there are that many, are the coming bookings; and the entries a
  dictionary holds, slot by slot.
\<close>

definition slot_at :: "'a list \<Rightarrow> nat \<Rightarrow> 'a option" where
  "slot_at xs n = (if n < length xs then Some (xs ! n) else None)"

definition slots :: "view_entry option \<Rightarrow> view_entry list \<Rightarrow> view_json" where
  "slots c others = \<lparr>current_booking = c, first_coming_booking = slot_at others 0,
                      second_coming_booking = slot_at others 1\<rparr>"

definition filled :: "view_json \<Rightarrow> view_entry list" where
  "filled v = (case current_booking v of None \<Rightarrow> [] | Some e \<Rightarrow> [e]) @
              (case first_coming_booking v of None \<Rightarrow> [] | Some e \<Rightarrow> [e]) @
              (case second_coming_booking v of None \<Rightarrow> [] | Some e \<Rightarrow> [e])"

section \<open>Auxiliary facts\<close>


lemma next_rowid_fresh: "next_rowid s \<notin> set (map booking_id s)"
proof (cases "s = []")
  case True then show ?thesis by simp
next
  case False
  have "\<forall>x \<in> set (map booking_id s). x \<le> Max (set (map booking_id s))" by simp
  then have "\<forall>x \<in> set (map booking_id s). x < next_rowid s"
    using False by (auto simp: next_rowid_def intro: le_less_trans)
  then show ?thesis by blast
qed

lemma unique_ids_insert_row: "unique_ids s \<Longrightarrow> unique_ids (insert_row st en d u s)"
  using next_rowid_fresh[of s] by (simp add: unique_ids_def insert_row_def)

lemma unique_ids_filter: "unique_ids s \<Longrightarrow> unique_ids (filter P s)"
  by (simp add: unique_ids_def distinct_map_filter)

lemma map_id_update_end_time: "map booking_id (update_end_time e i s) = map booking_id s"
  by (induction s) (auto simp: update_end_time_def)

lemma unique_ids_update_end_time: "unique_ids s \<Longrightarrow> unique_ids (update_end_time e i s)"
  by (simp add: unique_ids_def map_id_update_end_time)

lemma rows_overlap_sym: "rows_overlap a b = rows_overlap b a"
  by (auto simp: rows_overlap_def overlap_query_def)

lemma find_none_set: "(find P xs = None) = (\<forall>x \<in> set xs. \<not> P x)"
  by (auto simp: find_None_iff)

lemma find_some_set: "find P xs = Some x \<Longrightarrow> x \<in> set xs \<and> P x"
  by (auto simp: find_Some_iff)

lemma unique_ids_same_row:
  "unique_ids s \<Longrightarrow> a \<in> set s \<Longrightarrow> b \<in> set s \<Longrightarrow> booking_id a = booking_id b \<Longrightarrow> a = b"
  by (auto simp: unique_ids_def distinct_map inj_on_def)

lemma add_booking_success:
  "add_booking bi s = (Inr u, s') \<Longrightarrow>
     (\<forall>r \<in> set s. \<not> overlap_query (bi_end_time bi) (bi_start_time bi) r) \<and>
     s' = insert_row (bi_start_time bi) (bi_end_time bi) (bi_description bi) (bi_user_id bi) s"
  by (auto simp: add_booking_def find_none_set split: option.splits)

lemma add_booking_preserves:
  assumes "unique_ids s" "no_overlap s" "add_booking bi s = (Inr u, s')"
  shows "unique_ids s' \<and> no_overlap s'"
proof -
  let ?n = "\<lparr>booking_id = next_rowid s, start_time = bi_start_time bi,
             end_time = bi_end_time bi, description = bi_description bi,
             user_id = bi_user_id bi\<rparr>"
  from add_booking_success[OF assms(3)]
  have free: "\<forall>r \<in> set s. \<not> overlap_query (bi_end_time bi) (bi_start_time bi) r"
    and s': "s' = s @ [?n]" by (simp_all add: insert_row_def)
  have u: "unique_ids s'"
    using unique_ids_insert_row[OF assms(1)] add_booking_success[OF assms(3)] by simp
  have new: "\<forall>r \<in> set s. \<not> rows_overlap r ?n"
    using free by (simp add: rows_overlap_def)
  then have new': "\<forall>r \<in> set s. \<not> rows_overlap ?n r"
    using rows_overlap_sym by blast
  have "no_overlap s'"
    unfolding no_overlap_def s'
    using assms(2) new new' by (auto simp: no_overlap_def)
  with u show ?thesis by simp
qed

lemma process_extending_success:
  assumes "process_extending q i m s = (r, s')" "acked r = Ack"
  shows "\<exists>b. find (\<lambda>r. booking_id r = i) s = Some b \<and>
           (\<forall>x \<in> set s. booking_id x \<noteq> i \<longrightarrow>
               \<not> overlap_query (end_time b + m * 60) (start_time b) x) \<and>
           s' = update_end_time (end_time b + m * 60) i s"
  using assms
  by (auto simp: process_extending_def Let_def booking_not_found_def extension_overlaps_def
        find_none_set split: option.splits)

lemma set_update_end_time:
  "x \<in> set (update_end_time e i s) \<Longrightarrow>
     \<exists>y \<in> set s. x = (if booking_id y = i then y\<lparr>end_time := e\<rparr> else y)"
  by (auto simp: update_end_time_def)

lemma process_extending_preserves:
  assumes "unique_ids s" "no_overlap s" "process_extending q i m s = (r, s')" "acked r = Ack"
  shows "unique_ids s' \<and> no_overlap s'"
proof -
  from process_extending_success[OF assms(3,4)] obtain b where
    fb: "find (\<lambda>r. booking_id r = i) s = Some b" and
    free: "\<forall>x \<in> set s. booking_id x \<noteq> i \<longrightarrow>
               \<not> overlap_query (end_time b + m * 60) (start_time b) x" and
    s': "s' = update_end_time (end_time b + m * 60) i s" by blast
  let ?e = "end_time b + m * 60"
  from fb have bin: "b \<in> set s" and bid: "booking_id b = i"
    using find_some_set[OF fb] by auto
  have u: "unique_ids s'" using assms(1) s' by (simp add: unique_ids_update_end_time)
  have "\<not> rows_overlap x y"
    if x: "x \<in> set s'" and y: "y \<in> set s'" and ne: "booking_id x \<noteq> booking_id y" for x y
  proof -
    from x s' obtain x0 where x0: "x0 \<in> set s"
      "x = (if booking_id x0 = i then x0\<lparr>end_time := ?e\<rparr> else x0)"
      using set_update_end_time by blast
    from y s' obtain y0 where y0: "y0 \<in> set s"
      "y = (if booking_id y0 = i then y0\<lparr>end_time := ?e\<rparr> else y0)"
      using set_update_end_time by blast
    have ne0: "booking_id x0 \<noteq> booking_id y0" using ne x0(2) y0(2) by (auto split: if_splits)
    have old: "\<not> rows_overlap x0 y0" using assms(2) x0(1) y0(1) ne0 by (simp add: no_overlap_def)
    show ?thesis
    proof (cases "booking_id x0 = i")
      case True
      then have "x0 = b" using unique_ids_same_row[OF assms(1) x0(1) bin] bid by simp
      moreover have "booking_id y0 \<noteq> i" using ne0 True by simp
      moreover then have "\<not> overlap_query ?e (start_time b) y0" using free y0(1) by blast
      ultimately show ?thesis using x0(2) y0(2) True
        by (auto simp: rows_overlap_def overlap_query_def)
    next
      case False
      show ?thesis
      proof (cases "booking_id y0 = i")
        case True
        then have "y0 = b" using unique_ids_same_row[OF assms(1) y0(1) bin] bid by simp
        moreover have "\<not> overlap_query ?e (start_time b) x0" using free x0(1) False by blast
        ultimately show ?thesis using x0(2) y0(2) True False
          by (auto simp: rows_overlap_def overlap_query_def)
      next
        case F2: False
        then show ?thesis using old x0(2) y0(2) False by simp
      qed
    qed
  qed
  then have "no_overlap s'" by (simp add: no_overlap_def)
  with u show ?thesis by simp
qed

lemma process_unbooking_preserves:
  assumes "unique_ids s" "no_overlap s" "process_unbooking q i s = (r, s')"
  shows "unique_ids s' \<and> no_overlap s'"
  using assms by (auto simp: process_unbooking_def unique_ids_filter no_overlap_def)

lemma apply_operation_preserves:
  assumes "unique_ids s" "no_overlap s" "apply_operation x s = Some s'"
  shows "unique_ids s' \<and> no_overlap s'"
proof (cases x)
  case (Create bi)
  with assms(3) obtain u where "add_booking bi s = (Inr u, s')"
    by (auto split: prod.splits sum.splits)
  then show ?thesis using add_booking_preserves assms(1,2) by blast
next
  case (Extend q i m)
  with assms(3) obtain r where "process_extending q i m s = (r, s')" "acked r = Ack"
    by (auto split: prod.splits if_splits)
  then show ?thesis using process_extending_preserves assms(1,2) by blast
next
  case (Cancel q i)
  with assms(3) obtain r where "process_unbooking q i s = (r, s')"
    by (auto split: prod.splits if_splits)
  then show ?thesis using process_unbooking_preserves assms(1,2) by blast
qed

lemma run_operations_preserves:
  "unique_ids s \<Longrightarrow> no_overlap s \<Longrightarrow> run_operations xs s = Some s' \<Longrightarrow>
     unique_ids s' \<and> no_overlap s'"
proof (induction xs arbitrary: s)
  case Nil
  then show ?case by simp
next
  case (Cons x xs)
  from Cons.prems(3) obtain s1 where a: "apply_operation x s = Some s1"
    and r: "run_operations xs s1 = Some s'"
    by (auto split: option.splits)
  from apply_operation_preserves[OF Cons.prems(1,2) a] have "unique_ids s1" "no_overlap s1"
    by simp_all
  from Cons.IH[OF this r] show ?case .
qed

lemma aligned_closed_intersect:
  assumes "minute_aligned a" "minute_aligned b"
  shows "closed_intersect a b = rows_overlap a b"
proof -
  have "start_time a \<noteq> end_time b" "end_time a \<noteq> start_time b"
    using assms by (auto simp: minute_aligned_def)
  then show ?thesis by (auto simp: closed_intersect_def rows_overlap_def overlap_query_def)
qed

lemma minute_extend: "(en::int) mod 60 = 59 \<Longrightarrow> (en + m * 60) mod 60 = 59"
  by simp

lemma minute_end:
  assumes "(st::int) mod 60 = 0"
  shows "(st + d * 60 - 1) mod 60 = 59"
proof -
  from assms obtain k where k: "st = 60 * k" by (auto simp: mod_eq_0_iff_dvd)
  have "st + d * 60 - 1 = 59 + (k + d - 1) * 60" unfolding k by (simp add: algebra_simps)
  then have "(st + d * 60 - 1) mod 60 = (59 + (k + d - 1) * 60) mod 60" by simp
  also have "\<dots> = 59" by (simp only: mod_mult_self1) simp
  finally show ?thesis .
qed

lemma no_whole_minutes_101: "(m::int) * 60 \<noteq> 101"
proof
  assume "m * 60 = 101"
  then have "(m * 60) mod 60 = (101::int) mod 60" by simp
  then show False by simp
qed

lemma apply_operation_aligned:
  assumes "list_all minute_aligned s" "aligned_operation x" "apply_operation x s = Some s'"
  shows "list_all minute_aligned s'"
proof (cases x)
  case (Create bi)
  with assms(3) obtain u where "add_booking bi s = (Inr u, s')"
    by (auto split: prod.splits sum.splits)
  from add_booking_success[OF this]
  have "s' = insert_row (bi_start_time bi) (bi_end_time bi) (bi_description bi) (bi_user_id bi) s"
    by simp
  then show ?thesis using assms(1,2) Create
    by (simp add: insert_row_def minute_aligned_def minute_end)
next
  case (Extend q i m)
  with assms(3) obtain r where "process_extending q i m s = (r, s')" "acked r = Ack"
    by (auto split: prod.splits if_splits)
  from process_extending_success[OF this] obtain b where
    b: "find (\<lambda>r. booking_id r = i) s = Some b"
    and s': "s' = update_end_time (end_time b + m * 60) i s" by auto
  from find_some_set[OF b] assms(1) have "minute_aligned b" by (simp add: list_all_iff)
  then have "(end_time b + m * 60) mod 60 = 59" by (simp add: minute_aligned_def minute_extend)
  then show ?thesis using assms(1) s'
    by (auto simp: list_all_iff update_end_time_def minute_aligned_def)
next
  case (Cancel q i)
  with assms(1,3) show ?thesis
    by (auto simp: process_unbooking_def list_all_iff split: if_splits)
qed

lemma run_operations_aligned:
  "list_all minute_aligned s \<Longrightarrow> list_all aligned_operation xs \<Longrightarrow>
   run_operations xs s = Some s' \<Longrightarrow> list_all minute_aligned s'"
proof (induction xs arbitrary: s)
  case Nil
  then show ?case by simp
next
  case (Cons x xs)
  from Cons.prems(3) obtain s1 where a: "apply_operation x s = Some s1"
    and r: "run_operations xs s1 = Some s'"
    by (auto split: option.splits)
  from Cons.prems(2) have x: "aligned_operation x" and xs: "list_all aligned_operation xs"
    by simp_all
  from Cons.IH[OF apply_operation_aligned[OF Cons.prems(1) x a] xs r] show ?case .
qed

text \<open>
  With submitted bookings that start on a full minute, the closed intervals of distinct
  bookings never intersect.
\<close>

lemma closed_invariant_minute_aligned:
  assumes "list_all aligned_operation xs" "run_operations xs [] = Some s"
  shows "no_closed_intersection s"
proof -
  have u: "unique_ids []" "no_overlap []" by (simp_all add: unique_ids_def no_overlap_def)
  from run_operations_preserves[OF u assms(2)] have n: "no_overlap s" by simp
  from run_operations_aligned[OF _ assms] have "list_all minute_aligned s" by simp
  with n aligned_closed_intersect show ?thesis
    by (auto simp: no_closed_intersection_def no_overlap_def list_all_iff)
qed

lemmas eval_defs = add_booking_def insert_row_def next_rowid_def overlap_query_def
  sanitize_booking_input_def process_extending_def process_unbooking_def update_end_time_def
  booking_not_found_def extension_overlaps_def Let_def

lemma find_unique_row:
  assumes "unique_ids s" "b \<in> set s"
  shows "find (\<lambda>r. booking_id r = booking_id b) s = Some b"
proof (cases "find (\<lambda>r. booking_id r = booking_id b) s")
  case None
  then show ?thesis using assms(2) by (auto simp: find_none_set)
next
  case (Some c)
  then have "c \<in> set s" "booking_id c = booking_id b" using find_some_set[OF Some] by auto
  then have "c = b" using unique_ids_same_row[OF assms(1) _ assms(2)] by blast
  then show ?thesis using Some by simp
qed

lemma process_extending_absent:
  assumes "\<forall>r \<in> set s. booking_id r \<noteq> i"
  shows "process_extending q i m s = (booking_not_found, s)"
proof -
  from assms have "find (\<lambda>r. booking_id r = i) s = None" by (simp add: find_none_set)
  then show ?thesis by (simp add: process_extending_def)
qed

lemma process_extending_conflict:
  assumes u: "unique_ids s" "b \<in> set s" "booking_id b = i"
    and c: "\<exists>r \<in> set s. booking_id r \<noteq> i \<and> start_time r < end_time b + m * 60 \<and>
                       start_time b < end_time r"
  shows "process_extending q i m s = (extension_overlaps, s)"
proof -
  have f: "find (\<lambda>r. booking_id r = i) s = Some b" using find_unique_row[OF u(1,2)] u(3) by simp
  from c obtain r where "r \<in> set s" "booking_id r \<noteq> i \<and>
      overlap_query (end_time b + m * 60) (start_time b) r"
    by (auto simp: overlap_query_def)
  then have "find (\<lambda>r. booking_id r \<noteq> i \<and>
                 overlap_query (end_time b + m * 60) (start_time b) r) s \<noteq> None"
    unfolding find_none_set by blast
  then show ?thesis using f by (auto simp: process_extending_def)
qed

lemma process_extending_updates:
  assumes u: "unique_ids s" "b \<in> set s" "booking_id b = i"
    and c: "\<forall>r \<in> set s. booking_id r \<noteq> i \<longrightarrow>
          \<not> (start_time r < end_time b + m * 60 \<and> start_time b < end_time r)"
  shows "process_extending q i m s =
           (\<lparr>acked = Ack, posted = [(q, ''Successfully extended booking.'')]\<rparr>,
            update_end_time (end_time b + m * 60) i s) \<and>
         b\<lparr>end_time := end_time b + m * 60\<rparr> \<in> set (snd (process_extending q i m s))"
proof -
  have f: "find (\<lambda>r. booking_id r = i) s = Some b" using find_unique_row[OF u(1,2)] u(3) by simp
  from c have "find (\<lambda>r. booking_id r \<noteq> i \<and>
                 overlap_query (end_time b + m * 60) (start_time b) r) s = None"
    by (force simp: find_none_set overlap_query_def)
  then have p: "process_extending q i m s =
         (\<lparr>acked = Ack, posted = [(q, ''Successfully extended booking.'')]\<rparr>,
          update_end_time (end_time b + m * 60) i s)"
    using f by (simp add: process_extending_def)
  have "b\<lparr>end_time := end_time b + m * 60\<rparr> \<in> set (update_end_time (end_time b + m * 60) i s)"
    using u(2,3) by (force simp: update_end_time_def)
  with p show ?thesis by simp
qed

lemma view_step_no_current:
  "view_step hm (slots None acc) tb =
     (if clock_in_booking tb then slots (Some (make_entry hm (snd tb))) acc
      else slots None (acc @ [make_entry hm (snd tb)]))"
  by (cases tb; cases acc; cases "tl acc")
     (auto simp: view_step_def slots_def clock_in_booking_def slot_at_def nth_append)

lemma view_step_current:
  "view_step hm (slots (Some c) acc) tb = slots (Some c) (acc @ [make_entry hm (snd tb)])"
  by (cases tb; cases acc; cases "tl acc")
     (auto simp: view_step_def slots_def slot_at_def nth_append)

lemma view_loop_current:
  "view_loop hm (slots (Some c) acc) tbs = slots (Some c) (acc @ map (make_entry hm \<circ> snd) tbs)"
  by (induction tbs arbitrary: acc) (simp_all add: view_step_current)

lemma view_loop_no_current:
  "view_loop hm (slots None acc) tbs =
     (case find clock_in_booking tbs of
        None \<Rightarrow> slots None (acc @ map (make_entry hm \<circ> snd) tbs)
      | Some tb \<Rightarrow>
          slots (Some (make_entry hm (snd tb)))
            (acc @ map (make_entry hm \<circ> snd)
               (takeWhile (Not \<circ> clock_in_booking) tbs @
                tl (dropWhile (Not \<circ> clock_in_booking) tbs))))"
proof (induction tbs arbitrary: acc)
  case Nil
  then show ?case by simp
next
  case (Cons tb tbs)
  show ?case
  proof (cases "clock_in_booking tb")
    case True
    then show ?thesis by (simp add: view_step_no_current view_loop_current)
  next
    case False
    then show ?thesis using Cons.IH[of "acc @ [make_entry hm (snd tb)]"]
      by (simp add: view_step_no_current split: option.splits)
  qed
qed

lemma empty_view_slots: "empty_view = slots None []"
  by (simp add: empty_view_def slots_def slot_at_def)


lemma filled_slots:
  "filled (slots c others) = (case c of None \<Rightarrow> [] | Some e \<Rightarrow> [e]) @ take 2 others"
  by (cases others; cases "tl others") (auto simp: filled_def slots_def slot_at_def)

lemma mset_take_subset: "mset (take n xs) \<subseteq># mset xs"
proof -
  have "mset xs = mset (take n xs) + mset (drop n xs)"
    by (metis append_take_drop_id mset_append)
  then show ?thesis by simp
qed

lemma find_splits_list:
  "find P xs = Some x \<Longrightarrow>
     xs = takeWhile (Not \<circ> P) xs @ x # tl (dropWhile (Not \<circ> P) xs)"
  by (induction xs) (auto split: if_splits)

lemma slots_order:
  "second_coming_booking (slots c others) \<noteq> None \<longrightarrow>
   first_coming_booking (slots c others) \<noteq> None"
  by (simp add: slots_def slot_at_def)

lemma view_loop_filled:
  "mset (filled (view_loop hm empty_view tbs)) \<subseteq># mset (map (make_entry hm \<circ> snd) tbs)"
proof (cases "find clock_in_booking tbs")
  case None
  then have "view_loop hm empty_view tbs = slots None (map (make_entry hm \<circ> snd) tbs)"
    using view_loop_no_current[of hm "[]" tbs] by (simp add: empty_view_slots)
  then show ?thesis
    using mset_take_subset[of 2 "map (make_entry hm \<circ> snd) tbs"]
    by (simp add: filled_slots del: mset_map)
next
  case (Some tb)
  let ?rest = "takeWhile (Not \<circ> clock_in_booking) tbs @ tl (dropWhile (Not \<circ> clock_in_booking) tbs)"
  let ?e = "make_entry hm \<circ> snd"
  have v: "view_loop hm empty_view tbs = slots (Some (?e tb)) (map ?e ?rest)"
    using view_loop_no_current[of hm "[]" tbs] Some by (simp add: empty_view_slots)
  have "mset tbs = {#tb#} + mset ?rest"
    using find_splits_list[OF Some] by (metis add_mset_add_single mset.simps(2) mset_append union_mset_add_mset_right union_commute)
  then have m: "mset (map ?e tbs) = {#?e tb#} + mset (map ?e ?rest)"
    by (metis image_mset_single image_mset_union mset_map)
  have "mset (filled (slots (Some (?e tb)) (map ?e ?rest))) = {#?e tb#} + mset (take 2 (map ?e ?rest))"
    by (simp add: filled_slots)
  also have "\<dots> \<subseteq># {#?e tb#} + mset (map ?e ?rest)"
    using mset_take_subset[of 2 "map ?e ?rest"] by (simp del: mset_map)
  finally show ?thesis using v m by simp
qed

lemma bookings_to_view_json_loop:
  "bookings_to_view_json hm now bs = view_loop hm empty_view (map (\<lambda>b. (now, b)) bs)"
  by (simp add: bookings_to_view_json_def)

lemma take_as_positions:
  "k \<le> length xs \<Longrightarrow> take k xs = map (\<lambda>j. xs ! j) [0..<k]"
  by (auto intro!: nth_equalityI)

lemma drop_as_positions:
  "drop k xs = map (\<lambda>j. xs ! j) [k..<length xs]"
  by (auto intro!: nth_equalityI)

lemma find_position:
  assumes "find P xs = Some x"
  defines "k \<equiv> length (takeWhile (Not \<circ> P) xs)"
  shows "k < length xs \<and> xs ! k = x \<and> takeWhile (Not \<circ> P) xs = take k xs \<and>
         tl (dropWhile (Not \<circ> P) xs) = drop (Suc k) xs"
proof -
  from find_splits_list[OF assms(1)]
  have s: "xs = takeWhile (Not \<circ> P) xs @ x # tl (dropWhile (Not \<circ> P) xs)" .
  have l: "length xs = k + Suc (length (tl (dropWhile (Not \<circ> P) xs)))"
    unfolding k_def by (subst s) simp
  have n: "xs ! k = x" unfolding k_def by (subst s) (simp add: nth_append)
  have t: "take k xs = takeWhile (Not \<circ> P) xs" unfolding k_def by (subst s) simp
  have d: "drop (Suc k) xs = tl (dropWhile (Not \<circ> P) xs)" unfolding k_def by (subst s) simp
  from l n t d show ?thesis by simp
qed

lemma slot_positions:
  fixes e :: "'a \<Rightarrow> 'b"
  shows "(find P xs = None \<longrightarrow>
      (\<exists>js. distinct js \<and> set js \<subseteq> {..<length xs} \<and>
            take 2 (map e xs) = map (\<lambda>j. e (xs ! j)) js)) \<and>
     (\<forall>x. find P xs = Some x \<longrightarrow>
      (\<exists>js. distinct js \<and> set js \<subseteq> {..<length xs} \<and>
            e x # take 2 (map e (takeWhile (Not \<circ> P) xs @ tl (dropWhile (Not \<circ> P) xs))) =
            map (\<lambda>j. e (xs ! j)) js))"
proof (intro conjI allI impI)
  let ?js = "[0..<min 2 (length xs)]"
  have "take 2 (map e xs) = map e (take (min 2 (length xs)) xs)"
    by (cases "2 \<le> length xs") (simp_all add: take_map min_def)
  also have "\<dots> = map (\<lambda>j. e (xs ! j)) ?js"
    using take_as_positions[of "min 2 (length xs)" xs] by (simp add: comp_def)
  finally have "distinct ?js \<and> set ?js \<subseteq> {..<length xs} \<and>
        take 2 (map e xs) = map (\<lambda>j. e (xs ! j)) ?js" by auto
  then show "\<exists>js. distinct js \<and> set js \<subseteq> {..<length xs} \<and>
            take 2 (map e xs) = map (\<lambda>j. e (xs ! j)) js" by blast
next
  fix x assume f: "find P xs = Some x"
  define k where "k = length (takeWhile (Not \<circ> P) xs)"
  from find_position[OF f] have k: "k < length xs" "xs ! k = x"
    and t: "takeWhile (Not \<circ> P) xs = take k xs"
    and d: "tl (dropWhile (Not \<circ> P) xs) = drop (Suc k) xs"
    by (simp_all add: k_def)
  let ?others = "[0..<k] @ [Suc k..<length xs]"
  let ?js = "k # take 2 ?others"
  have r: "takeWhile (Not \<circ> P) xs @ tl (dropWhile (Not \<circ> P) xs) = map (\<lambda>j. xs ! j) ?others"
    using k(1) take_as_positions[of k xs] drop_as_positions[of "Suc k" xs] by (simp add: t d)
  have "e x # take 2 (map e (takeWhile (Not \<circ> P) xs @ tl (dropWhile (Not \<circ> P) xs))) =
        map (\<lambda>j. e (xs ! j)) ?js"
    unfolding r using k(2) by (simp add: take_map comp_def)
  moreover have "distinct ?others" by auto
  then have "distinct (take 2 ?others)" by (rule distinct_take)
  moreover have "set (take 2 ?others) \<subseteq> set ?others" by (rule set_take_subset)
  then have "k \<notin> set (take 2 ?others) \<and> set (take 2 ?others) \<subseteq> {..<length xs}"
    using k(1) by auto
  ultimately have "distinct ?js \<and> set ?js \<subseteq> {..<length xs} \<and>
       e x # take 2 (map e (takeWhile (Not \<circ> P) xs @ tl (dropWhile (Not \<circ> P) xs))) =
        map (\<lambda>j. e (xs ! j)) ?js" using k(1) by auto
  then show "\<exists>js. distinct js \<and> set js \<subseteq> {..<length xs} \<and>
            e x # take 2 (map e (takeWhile (Not \<circ> P) xs @ tl (dropWhile (Not \<circ> P) xs))) =
            map (\<lambda>j. e (xs ! j)) js" by (rule exI)
qed

lemma view_loop_positions:
  "\<exists>js. distinct js \<and> set js \<subseteq> {..<length tbs} \<and>
     filled (view_loop hm empty_view tbs) = map (\<lambda>j. make_entry hm (snd (tbs ! j))) js"
proof (cases "find clock_in_booking tbs")
  case None
  then have "view_loop hm empty_view tbs = slots None (map (make_entry hm \<circ> snd) tbs)"
    using view_loop_no_current[of hm "[]" tbs] by (simp add: empty_view_slots)
  then have "filled (view_loop hm empty_view tbs) = take 2 (map (make_entry hm \<circ> snd) tbs)"
    by (simp add: filled_slots)
  then show ?thesis
    using slot_positions[of clock_in_booking tbs "make_entry hm \<circ> snd"] None by simp
next
  case (Some tb)
  then have "view_loop hm empty_view tbs = slots (Some ((make_entry hm \<circ> snd) tb))
      (map (make_entry hm \<circ> snd) (takeWhile (Not \<circ> clock_in_booking) tbs @
         tl (dropWhile (Not \<circ> clock_in_booking) tbs)))"
    using view_loop_no_current[of hm "[]" tbs] by (simp add: empty_view_slots)
  then have "filled (view_loop hm empty_view tbs) =
      (make_entry hm \<circ> snd) tb # take 2 (map (make_entry hm \<circ> snd)
         (takeWhile (Not \<circ> clock_in_booking) tbs @ tl (dropWhile (Not \<circ> clock_in_booking) tbs)))"
    by (simp add: filled_slots)
  then show ?thesis
    using slot_positions[of clock_in_booking tbs "make_entry hm \<circ> snd"] Some by simp
qed

lemma bookings_to_view_json_positions:
  "\<exists>js. distinct js \<and> set js \<subseteq> {..<length bs} \<and>
     filled (bookings_to_view_json hm now bs) = map (\<lambda>j. make_entry hm (bs ! j)) js"
proof -
  from view_loop_positions[of "map (\<lambda>b. (now, b)) bs" hm] obtain js where
    js: "distinct js" "set js \<subseteq> {..<length bs}"
    "filled (view_loop hm empty_view (map (\<lambda>b. (now, b)) bs)) =
       map (\<lambda>j. make_entry hm (snd (map (\<lambda>b. (now, b)) bs ! j))) js"
    by auto
  have "map (\<lambda>j. make_entry hm (snd (map (\<lambda>b. (now, b)) bs ! j))) js =
        map (\<lambda>j. make_entry hm (bs ! j)) js"
    using js(2) by (intro map_cong) auto
  with js have "distinct js \<and> set js \<subseteq> {..<length bs} \<and>
     filled (bookings_to_view_json hm now bs) = map (\<lambda>j. make_entry hm (bs ! j)) js"
    by (simp add: bookings_to_view_json_loop)
  then show ?thesis by (rule exI)
qed

lemma view_loop_constant_clock:
  "view_loop hm (slots None acc) (map (\<lambda>b. (now, b)) bs) =
     (case find (\<lambda>b. in_range now (start_time b) (end_time b)) bs of
        None \<Rightarrow> slots None (acc @ map (make_entry hm) bs)
      | Some b \<Rightarrow>
          slots (Some (make_entry hm b))
            (acc @ map (make_entry hm)
               (takeWhile (\<lambda>b. \<not> in_range now (start_time b) (end_time b)) bs @
                tl (dropWhile (\<lambda>b. \<not> in_range now (start_time b) (end_time b)) bs))))"
proof (induction bs arbitrary: acc)
  case Nil
  then show ?case by simp
next
  case (Cons b bs)
  show ?case
  proof (cases "in_range now (start_time b) (end_time b)")
    case True
    then show ?thesis
      by (simp add: view_step_no_current view_loop_current clock_in_booking_def comp_def)
  next
    case False
    then show ?thesis using Cons.IH[of "acc @ [make_entry hm b]"]
      by (simp add: view_step_no_current clock_in_booking_def split: option.splits)
  qed
qed

lemma bookings_to_view_json_slots:
  "bookings_to_view_json hm now bs =
     (case find (\<lambda>b. start_time b \<le> now \<and> now < end_time b) bs of
        None \<Rightarrow> slots None (map (make_entry hm) bs)
      | Some b \<Rightarrow>
          slots (Some (make_entry hm b))
            (map (make_entry hm)
               (takeWhile (\<lambda>b. \<not> (start_time b \<le> now \<and> now < end_time b)) bs @
                tl (dropWhile (\<lambda>b. \<not> (start_time b \<le> now \<and> now < end_time b)) bs))))"
  using view_loop_constant_clock[of hm "[]" now bs, unfolded in_range_def]
  by (simp add: bookings_to_view_json_loop empty_view_slots split: option.splits)

section \<open>The non-overlap invariant\<close>

text \<open>
  Claim C1, as the code has it. Starting from a table with unique ids in which no two rows
  pass the overlap test of the queries (the empty table is one), every sequence of bookings,
  extensions and unbookings that all succeed leaves a table in which no two distinct rows
  \<open>a\<close>, \<open>b\<close> have \<open>a.start < b.end\<close> and \<open>b.start < a.end\<close>. Two rows may share one end
  point; when every row is minute aligned this cannot happen, and the closed intervals of
  distinct rows do not intersect. That is so whenever the table at the start is minute
  aligned and every submitted booking starts on a full minute.
\<close>

theorem no_overlap_invariant:
  assumes "unique_ids s0" "no_overlap s0" "run_operations ops s0 = Some s"
  shows "(\<forall>a \<in> set s. \<forall>b \<in> set s. booking_id a \<noteq> booking_id b \<longrightarrow>
            \<not> (start_time a < end_time b \<and> start_time b < end_time a)) \<and>
         (list_all minute_aligned s \<longrightarrow> no_closed_intersection s) \<and>
         (list_all minute_aligned s0 \<and> list_all aligned_operation ops \<longrightarrow>
            no_closed_intersection s)"
proof -
  from run_operations_preserves[OF assms] have n: "no_overlap s" by simp
  then have 1: "\<forall>a \<in> set s. \<forall>b \<in> set s. booking_id a \<noteq> booking_id b \<longrightarrow>
            \<not> (start_time a < end_time b \<and> start_time b < end_time a)"
    by (fastforce simp: no_overlap_def rows_overlap_def overlap_query_def)
  have 2: "no_closed_intersection s" if "list_all minute_aligned s"
    using that n aligned_closed_intersect
    by (auto simp: no_closed_intersection_def no_overlap_def list_all_iff)
  have 3: "no_closed_intersection s"
    if "list_all minute_aligned s0 \<and> list_all aligned_operation ops"
    using that run_operations_aligned[of s0 ops s] assms(3) 2 by blast
  from 1 2 3 show ?thesis by blast
qed

theorem no_overlap_invariant_counterexample:
  "run_operations
     [Create (sanitize_booking_input 100 1 ''first'' ''U1''),
      Create (sanitize_booking_input 159 1 ''second'' ''U2'')] [] =
   Some [\<lparr>booking_id = 1, start_time = 100, end_time = 159, description = ''first'',
            user_id = ''U1''\<rparr>,
         \<lparr>booking_id = 2, start_time = 159, end_time = 218, description = ''second'',
            user_id = ''U2''\<rparr>] \<and>
   booking_id \<lparr>booking_id = 1, start_time = 100, end_time = 159, description = ''first'',
       user_id = ''U1''\<rparr> \<noteq>
   booking_id \<lparr>booking_id = 2, start_time = 159, end_time = 218, description = ''second'',
       user_id = ''U2''\<rparr> \<and>
   closed_intersect
     \<lparr>booking_id = 1, start_time = 100, end_time = 159, description = ''first'',
       user_id = ''U1''\<rparr>
     \<lparr>booking_id = 2, start_time = 159, end_time = 218, description = ''second'',
       user_id = ''U2''\<rparr>"
  by (simp add: eval_defs closed_intersect_def)

theorem no_overlap_invariant_witness:
  "unique_ids [] \<and> no_overlap [] \<and>
   run_operations
     [Create (sanitize_booking_input 120 1 ''first'' ''U1''),
      Create (sanitize_booking_input 240 1 ''second'' ''U2''),
      Extend ''U2'' 1 1] [] =
   Some [\<lparr>booking_id = 1, start_time = 120, end_time = 239, description = ''first'',
            user_id = ''U1''\<rparr>,
         \<lparr>booking_id = 2, start_time = 240, end_time = 299, description = ''second'',
            user_id = ''U2''\<rparr>] \<and>
   list_all minute_aligned
        [\<lparr>booking_id = 1, start_time = 120, end_time = 239, description = ''first'',
            user_id = ''U1''\<rparr>,
         \<lparr>booking_id = 2, start_time = 240, end_time = 299, description = ''second'',
            user_id = ''U2''\<rparr>] \<and>
   no_closed_intersection
        [\<lparr>booking_id = 1, start_time = 120, end_time = 239, description = ''first'',
            user_id = ''U1''\<rparr>,
         \<lparr>booking_id = 2, start_time = 240, end_time = 299, description = ''second'',
            user_id = ''U2''\<rparr>]"
proof -
  have u: "unique_ids []" by (simp add: unique_ids_def)
  have n: "no_overlap []" by (simp add: no_overlap_def)
  have r: "run_operations
     [Create (sanitize_booking_input 120 1 ''first'' ''U1''),
      Create (sanitize_booking_input 240 1 ''second'' ''U2''),
      Extend ''U2'' 1 1] [] =
   Some [\<lparr>booking_id = 1, start_time = 120, end_time = 239, description = ''first'',
            user_id = ''U1''\<rparr>,
         \<lparr>booking_id = 2, start_time = 240, end_time = 299, description = ''second'',
            user_id = ''U2''\<rparr>]"
    by (simp add: eval_defs)
  have a: "list_all minute_aligned
        [\<lparr>booking_id = 1, start_time = 120, end_time = 239, description = ''first'',
            user_id = ''U1''\<rparr>,
         \<lparr>booking_id = 2, start_time = 240, end_time = 299, description = ''second'',
            user_id = ''U2''\<rparr>]"
    by (simp add: minute_aligned_def)
  from no_overlap_invariant[OF u n r] a u n r show ?thesis by blast
qed

section \<open>The snapshot\<close>

text \<open>
  Claim C2, at the last second of a booking. A booking that starts at second 0 and lasts one
  minute has \<open>end_time = 59\<close>; \<^verbatim>\<open>get_current_three_bookings\<close> still returns it at
  second 59 (\<^verbatim>\<open>end_time >= ?\<close>), and its closed interval \<open>[0, 59]\<close> contains 59. The loop
  tests \<^verbatim>\<open>current_timestamp in range(start_time, end_time)\<close>, which leaves second 59
  out, so the booking is shown as the first coming booking and no booking is current.
\<close>

theorem current_booking_last_second:
  "bookings_to_view_json hm 59
     [\<lparr>booking_id = 1, start_time = 0, end_time = 59, description = ''viewing'',
        user_id = ''U1''\<rparr>] =
   \<lparr>current_booking = None,
     first_coming_booking =
       Some \<lparr>entry_time = hm 0 @ '' - '' @ hm 60, entry_description = ''viewing''\<rparr>,
     second_coming_booking = None\<rparr>"
  by (simp add: bookings_to_view_json_def empty_view_def view_step_def in_range_def
        make_entry_def get_readable_start_end_time_def)

text \<open>
  What the loop computes at every other instant: the first booking with
  \<open>start_time \<le> now < end_time\<close> is the current one, and the remaining bookings, in list
  order, fill the first and the second coming slot (lemma \<open>bookings_to_view_json_slots\<close>).
  The example of the specification holds for every \<open>T\<close>.
\<close>

lemma projection_example:
  "bookings_to_view_json hm T
     [\<lparr>booking_id = 1, start_time = T - 10, end_time = T + 10, description = d1, user_id = u1\<rparr>,
      \<lparr>booking_id = 2, start_time = T + 20, end_time = T + 30, description = d2, user_id = u2\<rparr>,
      \<lparr>booking_id = 3, start_time = T + 40, end_time = T + 50, description = d3, user_id = u3\<rparr>] =
   \<lparr>current_booking = Some (make_entry hm
        \<lparr>booking_id = 1, start_time = T - 10, end_time = T + 10, description = d1, user_id = u1\<rparr>),
     first_coming_booking = Some (make_entry hm
        \<lparr>booking_id = 2, start_time = T + 20, end_time = T + 30, description = d2, user_id = u2\<rparr>),
     second_coming_booking = Some (make_entry hm
        \<lparr>booking_id = 3, start_time = T + 40, end_time = T + 50, description = d3, user_id = u3\<rparr>)\<rparr>"
  by (simp add: bookings_to_view_json_slots slots_def slot_at_def)

text \<open>
  Claim C9. Whatever the clock reads in each iteration, the second coming slot is filled
  only when the first one is, and the entries in the filled slots are the entries of the
  bookings at pairwise distinct positions of the input: no booking fills two slots, and
  no entry is shown more often than it occurs in the input.
\<close>

theorem snapshot_slot_order:
  "(second_coming_booking (view_loop hm empty_view tbs) \<noteq> None \<longrightarrow>
      first_coming_booking (view_loop hm empty_view tbs) \<noteq> None) \<and>
   (\<exists>js. distinct js \<and> set js \<subseteq> {..<length tbs} \<and>
      filled (view_loop hm empty_view tbs) = map (\<lambda>j. make_entry hm (snd (tbs ! j))) js) \<and>
   mset (filled (view_loop hm empty_view tbs)) \<subseteq># mset (map (make_entry hm \<circ> snd) tbs) \<and>
   (second_coming_booking (bookings_to_view_json hm now bs) \<noteq> None \<longrightarrow>
      first_coming_booking (bookings_to_view_json hm now bs) \<noteq> None) \<and>
   (\<exists>js. distinct js \<and> set js \<subseteq> {..<length bs} \<and>
      filled (bookings_to_view_json hm now bs) = map (\<lambda>j. make_entry hm (bs ! j)) js) \<and>
   mset (filled (bookings_to_view_json hm now bs)) \<subseteq># mset (map (make_entry hm) bs)"
proof -
  have o: "second_coming_booking (view_loop hm empty_view xs) \<noteq> None \<longrightarrow>
      first_coming_booking (view_loop hm empty_view xs) \<noteq> None" for xs
    using view_loop_no_current[of hm "[]" xs] slots_order
    by (auto simp: empty_view_slots split: option.splits)
  have f: "mset (filled (bookings_to_view_json hm now bs)) \<subseteq># mset (map (make_entry hm) bs)"
    using view_loop_filled[of hm "map (\<lambda>b. (now, b)) bs"]
    by (simp add: bookings_to_view_json_loop comp_def)
  have o': "second_coming_booking (bookings_to_view_json hm now bs) \<noteq> None \<longrightarrow>
      first_coming_booking (bookings_to_view_json hm now bs) \<noteq> None"
    using o[of "map (\<lambda>b. (now, b)) bs"] by (simp add: bookings_to_view_json_loop)
  from o[of tbs] view_loop_positions[of tbs hm] view_loop_filled[of hm tbs] o'
    bookings_to_view_json_positions[of bs hm now] f
  show ?thesis by (intro conjI)
qed

theorem snapshot_slot_order_witness:
  "bookings_to_view_json (\<lambda>t. ''hh:mm'') 5
     [\<lparr>booking_id = 1, start_time = 0, end_time = 59, description = ''a'', user_id = ''U1''\<rparr>,
      \<lparr>booking_id = 2, start_time = 60, end_time = 119, description = ''b'', user_id = ''U2''\<rparr>,
      \<lparr>booking_id = 3, start_time = 120, end_time = 179, description = ''c'', user_id = ''U3''\<rparr>] =
   \<lparr>current_booking = Some \<lparr>entry_time = ''hh:mm - hh:mm'', entry_description = ''a''\<rparr>,
     first_coming_booking = Some \<lparr>entry_time = ''hh:mm - hh:mm'', entry_description = ''b''\<rparr>,
     second_coming_booking = Some \<lparr>entry_time = ''hh:mm - hh:mm'', entry_description = ''c''\<rparr>\<rparr> \<and>
   (second_coming_booking (bookings_to_view_json (\<lambda>t. ''hh:mm'') 5
     [\<lparr>booking_id = 1, start_time = 0, end_time = 59, description = ''a'', user_id = ''U1''\<rparr>,
      \<lparr>booking_id = 2, start_time = 60, end_time = 119, description = ''b'', user_id = ''U2''\<rparr>,
      \<lparr>booking_id = 3, start_time = 120, end_time = 179, description = ''c'', user_id = ''U3''\<rparr>])
     \<noteq> None) \<and>
   (first_coming_booking (bookings_to_view_json (\<lambda>t. ''hh:mm'') 5
     [\<lparr>booking_id = 1, start_time = 0, end_time = 59, description = ''a'', user_id = ''U1''\<rparr>,
      \<lparr>booking_id = 2, start_time = 60, end_time = 119, description = ''b'', user_id = ''U2''\<rparr>,
      \<lparr>booking_id = 3, start_time = 120, end_time = 179, description = ''c'', user_id = ''U3''\<rparr>])
     \<noteq> None)"
proof -
  have v: "bookings_to_view_json (\<lambda>t. ''hh:mm'') 5
     [\<lparr>booking_id = 1, start_time = 0, end_time = 59, description = ''a'', user_id = ''U1''\<rparr>,
      \<lparr>booking_id = 2, start_time = 60, end_time = 119, description = ''b'', user_id = ''U2''\<rparr>,
      \<lparr>booking_id = 3, start_time = 120, end_time = 179, description = ''c'', user_id = ''U3''\<rparr>] =
   \<lparr>current_booking = Some \<lparr>entry_time = ''hh:mm - hh:mm'', entry_description = ''a''\<rparr>,
     first_coming_booking = Some \<lparr>entry_time = ''hh:mm - hh:mm'', entry_description = ''b''\<rparr>,
     second_coming_booking = Some \<lparr>entry_time = ''hh:mm - hh:mm'', entry_description = ''c''\<rparr>\<rparr>"
    by (simp add: bookings_to_view_json_def empty_view_def view_step_def in_range_def
        make_entry_def get_readable_start_end_time_def)
  then have s: "second_coming_booking (bookings_to_view_json (\<lambda>t. ''hh:mm'') 5
     [\<lparr>booking_id = 1, start_time = 0, end_time = 59, description = ''a'', user_id = ''U1''\<rparr>,
      \<lparr>booking_id = 2, start_time = 60, end_time = 119, description = ''b'', user_id = ''U2''\<rparr>,
      \<lparr>booking_id = 3, start_time = 120, end_time = 179, description = ''c'', user_id = ''U3''\<rparr>])
     \<noteq> None" by simp
  from snapshot_slot_order[of "\<lambda>t. ''hh:mm''" "[]" 5
     "[\<lparr>booking_id = 1, start_time = 0, end_time = 59, description = ''a'', user_id = ''U1''\<rparr>,
      \<lparr>booking_id = 2, start_time = 60, end_time = 119, description = ''b'', user_id = ''U2''\<rparr>,
      \<lparr>booking_id = 3, start_time = 120, end_time = 179, description = ''c'', user_id = ''U3''\<rparr>]"]
    v s show ?thesis by blast
qed

section \<open>Creating bookings\<close>

text \<open>
  Claim C3. \<^verbatim>\<open>sanitize_booking_input\<close> computes the end time as start plus sixty times the
  duration minus one, and a booking that starts after every stored booking has ended is
  admitted: in particular one that starts at second \<open>S + 1\<close> when the only stored booking
  ends at second \<open>S\<close>, as \<open>[100, 159]\<close> followed by a booking starting at 160. Two such
  bookings neither pass the overlap test of the queries nor have intersecting closed
  intervals.
\<close>

theorem adjacency_not_overlap:
  "bi_end_time (sanitize_booking_input st d descr uid) = st + d * 60 - 1 \<and>
   bi_start_time (sanitize_booking_input st d descr uid) = st \<and>
   (start_time (b::booking) = end_time (a::booking) + 1 \<longrightarrow>
      \<not> rows_overlap a b \<and> \<not> closed_intersect a b) \<and>
   ((\<forall>r \<in> set s. end_time r < st) \<longrightarrow>
      add_booking (sanitize_booking_input st d descr uid) s =
        (Inr (), s @ [\<lparr>booking_id = next_rowid s, start_time = st,
                        end_time = st + d * 60 - 1, description = descr, user_id = uid\<rparr>]))"
proof -
  have "find (overlap_query (st + d * 60 - 1) st) s = None" if "\<forall>r \<in> set s. end_time r < st"
    using that by (force simp: find_none_set overlap_query_def)
  then show ?thesis
    by (simp add: sanitize_booking_input_def add_booking_def insert_row_def
          rows_overlap_def overlap_query_def closed_intersect_def)
qed

theorem adjacency_not_overlap_witness:
  "end_time \<lparr>booking_id = 1, start_time = 100, end_time = 159, description = ''first'',
              user_id = ''U1''\<rparr> < 160 \<and>
   add_booking (sanitize_booking_input 100 1 ''first'' ''U1'') [] =
     (Inr (), [\<lparr>booking_id = 1, start_time = 100, end_time = 159, description = ''first'',
                 user_id = ''U1''\<rparr>]) \<and>
   add_booking (sanitize_booking_input 160 1 ''second'' ''U2'')
     [\<lparr>booking_id = 1, start_time = 100, end_time = 159, description = ''first'',
        user_id = ''U1''\<rparr>] =
     (Inr (), [\<lparr>booking_id = 1, start_time = 100, end_time = 159, description = ''first'',
                 user_id = ''U1''\<rparr>,
               \<lparr>booking_id = 2, start_time = 160, end_time = 219, description = ''second'',
                 user_id = ''U2''\<rparr>]) \<and>
   \<not> rows_overlap
     \<lparr>booking_id = 1, start_time = 100, end_time = 159, description = ''first'',
       user_id = ''U1''\<rparr>
     \<lparr>booking_id = 2, start_time = 160, end_time = 219, description = ''second'',
       user_id = ''U2''\<rparr>"
  using adjacency_not_overlap [where st = 100 and d = 1 and descr = "''first''"
      and uid = "''U1''" and s = "[]"
      and a = "\<lparr>booking_id = 1, start_time = 100, end_time = 159, description = ''first'',
         user_id = ''U1''\<rparr>"
      and b = "\<lparr>booking_id = 2, start_time = 160, end_time = 219, description = ''second'',
         user_id = ''U2''\<rparr>"]
    adjacency_not_overlap [where st = 160 and d = 1 and descr = "''second''"
      and uid = "''U2''"
      and s = "[\<lparr>booking_id = 1, start_time = 100, end_time = 159, description = ''first'',
         user_id = ''U1''\<rparr>]"
      and a = "\<lparr>booking_id = 1, start_time = 100, end_time = 159, description = ''first'',
         user_id = ''U1''\<rparr>"
      and b = "\<lparr>booking_id = 2, start_time = 160, end_time = 219, description = ''second'',
         user_id = ''U2''\<rparr>"]
  by (simp add: next_rowid_def)

text \<open>
  Claim C4, as the code has it. A stored booking \<open>r\<close> is in the way of the candidate when
  \<open>r.start < candidate.end\<close> and \<open>candidate.start < r.end\<close>, the test of the query. When
  some stored booking is in the way, \<^verbatim>\<open>add_booking\<close> raises \<^verbatim>\<open>OverlappingBookingError\<close>
  with a message that names the description of such a booking, and the table is unchanged;
  when none is, the candidate is appended with a fresh id. A candidate whose closed
  interval only shares an end point with a stored booking is not refused.
\<close>

theorem add_booking_conflict_or_insert:
  "((\<exists>r \<in> set s. start_time r < bi_end_time bi \<and> bi_start_time bi < end_time r) \<longrightarrow>
      (\<exists>r \<in> set s. start_time r < bi_end_time bi \<and> bi_start_time bi < end_time r \<and>
         add_booking bi s =
           (Inl (OverlappingBookingError
              (''A booking called '' @ [CHR 0x27] @ description r @ [CHR 0x27] @
               '' already exists during that time slot!'')), s))) \<and>
   ((\<forall>r \<in> set s. \<not> (start_time r < bi_end_time bi \<and> bi_start_time bi < end_time r)) \<longrightarrow>
      add_booking bi s =
        (Inr (), s @ [\<lparr>booking_id = next_rowid s, start_time = bi_start_time bi,
                        end_time = bi_end_time bi, description = bi_description bi,
                        user_id = bi_user_id bi\<rparr>]))"
proof (cases "find (overlap_query (bi_end_time bi) (bi_start_time bi)) s")
  case None
  then have "\<forall>r \<in> set s. \<not> overlap_query (bi_end_time bi) (bi_start_time bi) r"
    by (simp add: find_none_set)
  then have "\<forall>r \<in> set s. \<not> (start_time r < bi_end_time bi \<and> bi_start_time bi < end_time r)"
    by (auto simp: overlap_query_def)
  then show ?thesis using None by (auto simp: add_booking_def insert_row_def)
next
  case (Some e)
  then have "e \<in> set s" "overlap_query (bi_end_time bi) (bi_start_time bi) e"
    using find_some_set[OF Some] by auto
  then have e: "e \<in> set s" "start_time e < bi_end_time bi \<and> bi_start_time bi < end_time e"
    by (auto simp: overlap_query_def)
  have "add_booking bi s =
           (Inl (OverlappingBookingError
              (''A booking called '' @ [CHR 0x27] @ description e @ [CHR 0x27] @
               '' already exists during that time slot!'')), s)"
    using Some by (simp add: add_booking_def overlap_message_def)
  with e show ?thesis by blast
qed


theorem add_booking_conflict_or_insert_witness:
  "(\<exists>r \<in> set [\<lparr>booking_id = 1, start_time = 100, end_time = 200, description = ''first'',
                   user_id = ''U1''\<rparr>]. start_time r < 250 \<and> 150 < end_time r) \<and>
   add_booking \<lparr>bi_start_time = 100, bi_duration = 2, bi_end_time = 200,
                bi_description = ''first'', bi_user_id = ''U1''\<rparr> [] =
     (Inr (), [\<lparr>booking_id = 1, start_time = 100, end_time = 200, description = ''first'',
                 user_id = ''U1''\<rparr>]) \<and>
   add_booking \<lparr>bi_start_time = 150, bi_duration = 2, bi_end_time = 250,
                bi_description = ''second'', bi_user_id = ''U2''\<rparr>
     [\<lparr>booking_id = 1, start_time = 100, end_time = 200, description = ''first'',
        user_id = ''U1''\<rparr>] =
     (Inl (OverlappingBookingError
        ''A booking called 'first' already exists during that time slot!''),
      [\<lparr>booking_id = 1, start_time = 100, end_time = 200, description = ''first'',
         user_id = ''U1''\<rparr>])"
  using add_booking_conflict_or_insert
      [of "[]" "\<lparr>bi_start_time = 100, bi_duration = 2, bi_end_time = 200,
                bi_description = ''first'', bi_user_id = ''U1''\<rparr>"]
    add_booking_conflict_or_insert
      [of "[\<lparr>booking_id = 1, start_time = 100, end_time = 200, description = ''first'',
         user_id = ''U1''\<rparr>]"
        "\<lparr>bi_start_time = 150, bi_duration = 2, bi_end_time = 250,
                bi_description = ''second'', bi_user_id = ''U2''\<rparr>"]
  by (simp add: next_rowid_def)

text \<open>
  The closed intervals \<open>[100, 159]\<close> and \<open>[159, 218]\<close> intersect in second 159, and the
  second booking is created all the same.
\<close>

theorem add_booking_conflict_or_insert_counterexample:
  "closed_intersect
     \<lparr>booking_id = 1, start_time = 100, end_time = 159, description = ''first'',
       user_id = ''U1''\<rparr>
     \<lparr>booking_id = 2, start_time = 159, end_time = 218, description = ''second'',
       user_id = ''U2''\<rparr> \<and>
   add_booking (sanitize_booking_input 159 1 ''second'' ''U2'')
     [\<lparr>booking_id = 1, start_time = 100, end_time = 159, description = ''first'',
        user_id = ''U1''\<rparr>] =
     (Inr (), [\<lparr>booking_id = 1, start_time = 100, end_time = 159, description = ''first'',
                 user_id = ''U1''\<rparr>,
               \<lparr>booking_id = 2, start_time = 159, end_time = 218, description = ''second'',
                 user_id = ''U2''\<rparr>])"
  by (simp add: closed_intersect_def add_booking_def insert_row_def next_rowid_def
        overlap_query_def sanitize_booking_input_def)

section \<open>Extending a booking\<close>

text \<open>
  Claim C5, as the code has it. When no row has the submitted id, \<^verbatim>\<open>process_extending\<close>
  acknowledges with the error that the booking was not found, posts nothing and leaves the
  table unchanged. Otherwise the new end time is the end time plus sixty times the minutes.
  Another row \<open>r\<close> is in the way when \<open>r.start < new_end\<close> and \<open>booking.start < r.end\<close>, the
  test of the query: if some other row is in the way, the acknowledgement carries the
  overlap error, nothing is posted and the table is unchanged; if none is, the modal is
  acknowledged, the success message is posted and the end time of the booking is the new
  end time. An extension whose closed interval only shares an end point with another
  booking is not refused.
\<close>

theorem process_extending_behaviour:
  "((\<forall>r \<in> set s. booking_id r \<noteq> i) \<longrightarrow>
      process_extending q i m s =
        (\<lparr>acked = AckErrors [(''extending_select'', ''Booking not found.'')], posted = []\<rparr>, s)) \<and>
   (unique_ids s \<and> b \<in> set s \<and> booking_id b = i \<longrightarrow>
      ((\<exists>r \<in> set s. booking_id r \<noteq> i \<and> start_time r < end_time b + m * 60 \<and>
                       start_time b < end_time r) \<longrightarrow>
         process_extending q i m s =
           (\<lparr>acked = AckErrors [(''extending_select'',
              ''Cannot extend booking as it overlaps with another booking.'')],
            posted = []\<rparr>, s)) \<and>
      ((\<forall>r \<in> set s. booking_id r \<noteq> i \<longrightarrow>
            \<not> (start_time r < end_time b + m * 60 \<and> start_time b < end_time r)) \<longrightarrow>
         process_extending q i m s =
           (\<lparr>acked = Ack, posted = [(q, ''Successfully extended booking.'')]\<rparr>,
            update_end_time (end_time b + m * 60) i s) \<and>
         b\<lparr>end_time := end_time b + m * 60\<rparr> \<in> set (snd (process_extending q i m s))))"
  using process_extending_absent[of s i q m, unfolded booking_not_found_def]
    process_extending_conflict[of s b i m q, unfolded extension_overlaps_def]
    process_extending_updates[of s b i m q]
  by blast

theorem process_extending_behaviour_witness:
  "process_extending ''U1'' 7 1
     [\<lparr>booking_id = 1, start_time = 0, end_time = 99, description = ''a'', user_id = ''U1''\<rparr>,
      \<lparr>booking_id = 2, start_time = 200, end_time = 299, description = ''b'', user_id = ''U2''\<rparr>] =
   (\<lparr>acked = AckErrors [(''extending_select'', ''Booking not found.'')], posted = []\<rparr>,
     [\<lparr>booking_id = 1, start_time = 0, end_time = 99, description = ''a'', user_id = ''U1''\<rparr>,
      \<lparr>booking_id = 2, start_time = 200, end_time = 299, description = ''b'', user_id = ''U2''\<rparr>]) \<and>
   process_extending ''U1'' 1 2
     [\<lparr>booking_id = 1, start_time = 0, end_time = 99, description = ''a'', user_id = ''U1''\<rparr>,
      \<lparr>booking_id = 2, start_time = 200, end_time = 299, description = ''b'', user_id = ''U2''\<rparr>] =
   (\<lparr>acked = AckErrors [(''extending_select'',
              ''Cannot extend booking as it overlaps with another booking.'')],
            posted = []\<rparr>,
     [\<lparr>booking_id = 1, start_time = 0, end_time = 99, description = ''a'', user_id = ''U1''\<rparr>,
      \<lparr>booking_id = 2, start_time = 200, end_time = 299, description = ''b'', user_id = ''U2''\<rparr>]) \<and>
   process_extending ''U1'' 1 1
     [\<lparr>booking_id = 1, start_time = 0, end_time = 99, description = ''a'', user_id = ''U1''\<rparr>,
      \<lparr>booking_id = 2, start_time = 200, end_time = 299, description = ''b'', user_id = ''U2''\<rparr>] =
   (\<lparr>acked = Ack, posted = [(''U1'', ''Successfully extended booking.'')]\<rparr>,
     [\<lparr>booking_id = 1, start_time = 0, end_time = 159, description = ''a'', user_id = ''U1''\<rparr>,
      \<lparr>booking_id = 2, start_time = 200, end_time = 299, description = ''b'', user_id = ''U2''\<rparr>])"
  using process_extending_behaviour
      [of "[\<lparr>booking_id = 1, start_time = 0, end_time = 99, description = ''a'', user_id = ''U1''\<rparr>,
      \<lparr>booking_id = 2, start_time = 200, end_time = 299, description = ''b'', user_id = ''U2''\<rparr>]"
          7 "''U1''" 1]
    process_extending_behaviour
      [of "[\<lparr>booking_id = 1, start_time = 0, end_time = 99, description = ''a'', user_id = ''U1''\<rparr>,
      \<lparr>booking_id = 2, start_time = 200, end_time = 299, description = ''b'', user_id = ''U2''\<rparr>]"
          1 "''U1''" 2
          "\<lparr>booking_id = 1, start_time = 0, end_time = 99, description = ''a'', user_id = ''U1''\<rparr>"]
    process_extending_behaviour
      [of "[\<lparr>booking_id = 1, start_time = 0, end_time = 99, description = ''a'', user_id = ''U1''\<rparr>,
      \<lparr>booking_id = 2, start_time = 200, end_time = 299, description = ''b'', user_id = ''U2''\<rparr>]"
          1 "''U1''" 1
          "\<lparr>booking_id = 1, start_time = 0, end_time = 99, description = ''a'', user_id = ''U1''\<rparr>"]
  by (simp add: unique_ids_def update_end_time_def)

text \<open>
  With \<open>[0, 59]\<close> and \<open>[119, 179]\<close> stored, extending the first booking by one minute gives
  \<open>[0, 119]\<close>, whose closed interval intersects \<open>[119, 179]\<close> in second 119, and the
  extension is made all the same.
\<close>

theorem process_extending_behaviour_counterexample:
  "process_extending ''U1'' 1 1
     [\<lparr>booking_id = 1, start_time = 0, end_time = 59, description = ''a'', user_id = ''U1''\<rparr>,
      \<lparr>booking_id = 2, start_time = 119, end_time = 179, description = ''b'', user_id = ''U2''\<rparr>] =
   (\<lparr>acked = Ack, posted = [(''U1'', ''Successfully extended booking.'')]\<rparr>,
     [\<lparr>booking_id = 1, start_time = 0, end_time = 119, description = ''a'', user_id = ''U1''\<rparr>,
      \<lparr>booking_id = 2, start_time = 119, end_time = 179, description = ''b'', user_id = ''U2''\<rparr>]) \<and>
   closed_intersect
     \<lparr>booking_id = 1, start_time = 0, end_time = 119, description = ''a'', user_id = ''U1''\<rparr>
     \<lparr>booking_id = 2, start_time = 119, end_time = 179, description = ''b'', user_id = ''U2''\<rparr>"
  by (simp add: closed_intersect_def process_extending_def update_end_time_def
        overlap_query_def Let_def)

text \<open>
  The example of the specification, for every extension by whole minutes: with \<open>[0, 99]\<close> and
  \<open>[200, 299]\<close> stored, an extension of the first booking that reaches second 200 or later
  is refused, and one that ends before second 200 is made. No extension by whole minutes
  ends at second 150; the one by one minute ends at second 159.
\<close>

lemma extension_respects_others:
  "(99 + m * 60 \<ge> 200 \<longrightarrow>
      process_extending q 1 m
        [\<lparr>booking_id = 1, start_time = 0, end_time = 99, description = d1, user_id = u1\<rparr>,
         \<lparr>booking_id = 2, start_time = 200, end_time = 299, description = d2, user_id = u2\<rparr>] =
      (\<lparr>acked = AckErrors [(''extending_select'',
              ''Cannot extend booking as it overlaps with another booking.'')],
            posted = []\<rparr>,
        [\<lparr>booking_id = 1, start_time = 0, end_time = 99, description = d1, user_id = u1\<rparr>,
         \<lparr>booking_id = 2, start_time = 200, end_time = 299, description = d2, user_id = u2\<rparr>])) \<and>
   (99 + m * 60 < 200 \<longrightarrow>
      process_extending q 1 m
        [\<lparr>booking_id = 1, start_time = 0, end_time = 99, description = d1, user_id = u1\<rparr>,
         \<lparr>booking_id = 2, start_time = 200, end_time = 299, description = d2, user_id = u2\<rparr>] =
      (\<lparr>acked = Ack, posted = [(q, ''Successfully extended booking.'')]\<rparr>,
         [\<lparr>booking_id = 1, start_time = 0, end_time = 99 + m * 60, description = d1, user_id = u1\<rparr>,
          \<lparr>booking_id = 2, start_time = 200, end_time = 299, description = d2, user_id = u2\<rparr>])) \<and>
   99 + m * 60 \<noteq> 150"
proof -
  have a: "m * 60 \<noteq> 101" by (rule no_whole_minutes_101)
  have b: "20 * m \<noteq> 17"
  proof
    assume "20 * m = 17"
    then have "(20 * m) mod 20 = (17::int) mod 20" by simp
    then show False by simp
  qed
  from a b show ?thesis
    by (auto simp: process_extending_def update_end_time_def overlap_query_def Let_def
          extension_overlaps_def)
qed

text \<open>
  Claim C6. A successful extension keeps the number and order of the rows, the id, start
  time, description and user of every row, and every row with another id altogether.
\<close>

theorem process_extending_frame:
  assumes "process_extending q i m s = (r, s')" "acked r = Ack"
  shows "length s' = length s \<and>
     (\<forall>k < length s.
        booking_id (s' ! k) = booking_id (s ! k) \<and>
        start_time (s' ! k) = start_time (s ! k) \<and>
        description (s' ! k) = description (s ! k) \<and>
        user_id (s' ! k) = user_id (s ! k) \<and>
        (booking_id (s ! k) \<noteq> i \<longrightarrow> s' ! k = s ! k))"
proof -
  from process_extending_success[OF assms] obtain b :: booking where
    "s' = update_end_time (end_time b + m * 60) i s" by blast
  then show ?thesis by (simp add: update_end_time_def)
qed

theorem process_extending_frame_witness:
  "process_extending ''U2'' 1 1
     [\<lparr>booking_id = 1, start_time = 0, end_time = 99, description = ''a'', user_id = ''U1''\<rparr>,
      \<lparr>booking_id = 2, start_time = 200, end_time = 299, description = ''b'', user_id = ''U2''\<rparr>] =
   (\<lparr>acked = Ack, posted = [(''U2'', ''Successfully extended booking.'')]\<rparr>,
     [\<lparr>booking_id = 1, start_time = 0, end_time = 159, description = ''a'', user_id = ''U1''\<rparr>,
      \<lparr>booking_id = 2, start_time = 200, end_time = 299, description = ''b'', user_id = ''U2''\<rparr>]) \<and>
   length [\<lparr>booking_id = 1, start_time = 0, end_time = 159, description = ''a'', user_id = ''U1''\<rparr>,
      \<lparr>booking_id = 2, start_time = 200, end_time = 299, description = ''b'', user_id = ''U2''\<rparr>] =
   length [\<lparr>booking_id = 1, start_time = 0, end_time = 99, description = ''a'', user_id = ''U1''\<rparr>,
      \<lparr>booking_id = 2, start_time = 200, end_time = 299, description = ''b'', user_id = ''U2''\<rparr>]"
proof -
  have p: "process_extending ''U2'' 1 1
     [\<lparr>booking_id = 1, start_time = 0, end_time = 99, description = ''a'', user_id = ''U1''\<rparr>,
      \<lparr>booking_id = 2, start_time = 200, end_time = 299, description = ''b'', user_id = ''U2''\<rparr>] =
   (\<lparr>acked = Ack, posted = [(''U2'', ''Successfully extended booking.'')]\<rparr>,
     [\<lparr>booking_id = 1, start_time = 0, end_time = 159, description = ''a'', user_id = ''U1''\<rparr>,
      \<lparr>booking_id = 2, start_time = 200, end_time = 299, description = ''b'', user_id = ''U2''\<rparr>])"
    by (simp add: eval_defs)
  have a: "acked \<lparr>acked = Ack, posted = [(''U2'', ''Successfully extended booking.'')]\<rparr> = Ack"
    by simp
  from process_extending_frame[OF p a] p show ?thesis by blast
qed

section \<open>Unbooking\<close>

text \<open>
  Claim C7. \<^verbatim>\<open>process_unbooking\<close> always acknowledges without errors; afterwards the table
  holds exactly the rows with another id, so a table without the id is unchanged, and
  unbooking the same id again changes nothing more.
\<close>

theorem process_unbooking_idempotent:
  "acked (fst (process_unbooking q i s)) = Ack \<and>
   set (snd (process_unbooking q i s)) = {r \<in> set s. booking_id r \<noteq> i} \<and>
   ((\<forall>r \<in> set s. booking_id r \<noteq> i) \<longrightarrow> snd (process_unbooking q i s) = s) \<and>
   snd (process_unbooking q i (snd (process_unbooking q i s))) = snd (process_unbooking q i s)"
  by (auto simp: process_unbooking_def filter_id_conv)

theorem process_unbooking_idempotent_witness:
  "booking_id \<lparr>booking_id = 1, start_time = 0, end_time = 99, description = ''a'',
                user_id = ''U1''\<rparr> \<noteq> 5 \<and>
   acked (fst (process_unbooking ''U1'' 5
     [\<lparr>booking_id = 1, start_time = 0, end_time = 99, description = ''a'',
        user_id = ''U1''\<rparr>])) = Ack \<and>
   snd (process_unbooking ''U1'' 5
     [\<lparr>booking_id = 1, start_time = 0, end_time = 99, description = ''a'',
        user_id = ''U1''\<rparr>]) =
     [\<lparr>booking_id = 1, start_time = 0, end_time = 99, description = ''a'', user_id = ''U1''\<rparr>]"
  using process_unbooking_idempotent
     [of "''U1''" 5
       "[\<lparr>booking_id = 1, start_time = 0, end_time = 99, description = ''a'', user_id = ''U1''\<rparr>]"]
  by simp

section \<open>A user's future bookings\<close>

text \<open>
  Claim C8. \<^verbatim>\<open>get_all_future_user_bookings\<close> returns exactly the rows of the user whose end
  time is later than the clock reading, each once, in ascending order of start time: a row
  that ends at the reading or before is left out, and one that ends a second later is in.
\<close>

theorem future_user_bookings:
  "set (get_all_future_user_bookings now uid s) =
     {r \<in> set s. user_id r = uid \<and> end_time r > now} \<and>
   mset (get_all_future_user_bookings now uid s) =
     filter_mset (\<lambda>r. user_id r = uid \<and> end_time r > now) (mset s) \<and>
   sorted (map start_time (get_all_future_user_bookings now uid s)) \<and>
   (\<forall>r \<in> set s. end_time r \<le> now \<longrightarrow> r \<notin> set (get_all_future_user_bookings now uid s)) \<and>
   (\<forall>r \<in> set s. user_id r = uid \<and> end_time r = now + 1 \<longrightarrow>
        r \<in> set (get_all_future_user_bookings now uid s))"
  by (auto simp: get_all_future_user_bookings_def)

theorem future_user_bookings_witness:
  "\<lparr>booking_id = 1, start_time = 0, end_time = 100, description = ''a'', user_id = ''U1''\<rparr>
     \<notin> set (get_all_future_user_bookings 100 ''U1''
       [\<lparr>booking_id = 1, start_time = 0, end_time = 100, description = ''a'', user_id = ''U1''\<rparr>,
        \<lparr>booking_id = 2, start_time = 50, end_time = 101, description = ''b'', user_id = ''U1''\<rparr>,
        \<lparr>booking_id = 3, start_time = 200, end_time = 259, description = ''c'', user_id = ''U2''\<rparr>]) \<and>
   \<lparr>booking_id = 2, start_time = 50, end_time = 101, description = ''b'', user_id = ''U1''\<rparr>
     \<in> set (get_all_future_user_bookings 100 ''U1''
       [\<lparr>booking_id = 1, start_time = 0, end_time = 100, description = ''a'', user_id = ''U1''\<rparr>,
        \<lparr>booking_id = 2, start_time = 50, end_time = 101, description = ''b'', user_id = ''U1''\<rparr>,
        \<lparr>booking_id = 3, start_time = 200, end_time = 259, description = ''c'', user_id = ''U2''\<rparr>])"
  using future_user_bookings
     [of 100 "''U1''"
       "[\<lparr>booking_id = 1, start_time = 0, end_time = 100, description = ''a'', user_id = ''U1''\<rparr>,
        \<lparr>booking_id = 2, start_time = 50, end_time = 101, description = ''b'', user_id = ''U1''\<rparr>,
        \<lparr>booking_id = 3, start_time = 200, end_time = 259, description = ''c'', user_id = ''U2''\<rparr>]"]
  by simp

section \<open>The requesting user\<close>

text \<open>
  Claim C10. The table after an unbooking or an extension, and the acknowledgement, do not
  depend on who submitted the modal; only the channel of the posted message does. So a user
  who is not the owner of a booking removes it by submitting its id, and extends it when no
  other booking is in the way.
\<close>

theorem requester_not_checked:
  "snd (process_unbooking q1 i s) = snd (process_unbooking q2 i s) \<and>
   acked (fst (process_unbooking q1 i s)) = acked (fst (process_unbooking q2 i s)) \<and>
   snd (process_extending q1 i m s) = snd (process_extending q2 i m s) \<and>
   acked (fst (process_extending q1 i m s)) = acked (fst (process_extending q2 i m s)) \<and>
   (b \<in> set s \<and> booking_id b = i \<and> user_id b \<noteq> q1 \<longrightarrow>
      b \<notin> set (snd (process_unbooking q1 i s))) \<and>
   (unique_ids s \<and> b \<in> set s \<and> booking_id b = i \<and> user_id b \<noteq> q1 \<and>
    (\<forall>r \<in> set s. booking_id r \<noteq> i \<longrightarrow>
        \<not> (start_time r < end_time b + m * 60 \<and> start_time b < end_time r)) \<longrightarrow>
      b\<lparr>end_time := end_time b + m * 60\<rparr> \<in> set (snd (process_extending q1 i m s)))"
proof -
  have 1: "snd (process_unbooking q1 i s) = snd (process_unbooking q2 i s)"
    "acked (fst (process_unbooking q1 i s)) = acked (fst (process_unbooking q2 i s))"
    by (simp_all add: process_unbooking_def)
  have 2: "snd (process_extending q1 i m s) = snd (process_extending q2 i m s)"
    "acked (fst (process_extending q1 i m s)) = acked (fst (process_extending q2 i m s))"
    by (simp_all add: process_extending_def Let_def split: option.splits)
  have 3: "b \<notin> set (snd (process_unbooking q1 i s))" if "booking_id b = i"
    using that by (simp add: process_unbooking_def)
  from 1 2 3 process_extending_updates[of s b i m q1] show ?thesis by blast
qed

theorem requester_not_checked_witness:
  "snd (process_unbooking ''U2'' 1
     [\<lparr>booking_id = 1, start_time = 0, end_time = 59, description = ''a'', user_id = ''U1''\<rparr>]) =
   snd (process_unbooking ''U1'' 1
     [\<lparr>booking_id = 1, start_time = 0, end_time = 59, description = ''a'', user_id = ''U1''\<rparr>]) \<and>
   \<lparr>booking_id = 1, start_time = 0, end_time = 59, description = ''a'', user_id = ''U1''\<rparr>
     \<notin> set (snd (process_unbooking ''U2'' 1
       [\<lparr>booking_id = 1, start_time = 0, end_time = 59, description = ''a'', user_id = ''U1''\<rparr>])) \<and>
   \<lparr>booking_id = 1, start_time = 0, end_time = 119, description = ''a'', user_id = ''U1''\<rparr>
     \<in> set (snd (process_extending ''U2'' 1 1
       [\<lparr>booking_id = 1, start_time = 0, end_time = 59, description = ''a'', user_id = ''U1''\<rparr>]))"
proof -
  note w = requester_not_checked
    [of "''U2''" 1
      "[\<lparr>booking_id = 1, start_time = 0, end_time = 59, description = ''a'', user_id = ''U1''\<rparr>]"
      "''U1''" 1
      "\<lparr>booking_id = 1, start_time = 0, end_time = 59, description = ''a'', user_id = ''U1''\<rparr>"]
  from w have e1: "snd (process_unbooking ''U2'' 1
     [\<lparr>booking_id = 1, start_time = 0, end_time = 59, description = ''a'', user_id = ''U1''\<rparr>]) =
   snd (process_unbooking ''U1'' 1
     [\<lparr>booking_id = 1, start_time = 0, end_time = 59, description = ''a'', user_id = ''U1''\<rparr>])"
    by (rule conjunct1)
  from w have e2: "\<lparr>booking_id = 1, start_time = 0, end_time = 59, description = ''a'', user_id = ''U1''\<rparr>
     \<notin> set (snd (process_unbooking ''U2'' 1
       [\<lparr>booking_id = 1, start_time = 0, end_time = 59, description = ''a'', user_id = ''U1''\<rparr>]))"
    by (simp (no_asm_use) add: unique_ids_def, (blast)?)
  from w have e3: "\<lparr>booking_id = 1, start_time = 0, end_time = 119, description = ''a'', user_id = ''U1''\<rparr>
     \<in> set (snd (process_extending ''U2'' 1 1
       [\<lparr>booking_id = 1, start_time = 0, end_time = 59, description = ''a'', user_id = ''U1''\<rparr>]))"
    by (simp (no_asm_use) add: unique_ids_def, (blast)?)
  from e1 e2 e3 show ?thesis by (intro conjI)
qed

end
